theory Spec2Isabelle
  imports Complex_Main "HOL-Library.Multiset"
begin

text \<open>
  The chunking and hybrid retrieval core of the Thanaweya Amma retrieval system:
  subject-specific text cleaning and structure-aware chunking
  (\<^verbatim>\<open>src/data_processing.py\<close>), the lexical index per subject and the reciprocal
  rank fusion of lexical and semantic results (\<^verbatim>\<open>src/hybrid_retriever.py\<close>), with
  the constants of \<^verbatim>\<open>src/config.py\<close>. The functions are embedded as HOL functions;
  what the libraries and the runtime supply (the BM25 scorer, the text splitter, the
  semantic search, \<open>str.lower\<close>) is a parameter of the functions that use it.
\<close>

section \<open>Python values\<close>

text \<open>
  A Python \<open>str\<close> is a sequence of Unicode code points, and \<open>len\<close> counts code points;
  a string is modelled as the list of its code points. Python floats are modelled as exact
  rationals: rounding is not part of the model.
\<close>

type_synonym ustring = "nat list"

datatype py_error = ZeroDivisionError | KeyError | IndexError | re_error

text \<open>An ASCII literal of the source, as code points.\<close>

definition ascii :: "string \<Rightarrow> ustring" where
  "ascii s = map of_char s"


subsection \<open>Character classes of the Python runtime\<close>

text \<open>
  The tables are those of CPython 3.11 (Unicode 14.0.0), as inclusive ranges of code
  points. \<open>is_space\<close> is the class that \<open>str.strip()\<close>, \<open>str.split()\<close>,
  \<open>str.isspace()\<close> and the pattern \<open>\s\<close> use; \<open>is_decimal\<close> is the pattern \<open>\d\<close>
  (general category Nd); \<open>is_digit\<close> is the per-character test of \<open>str.isdigit()\<close>.
\<close>

definition in_ranges :: "nat \<Rightarrow> (nat \<times> nat) list \<Rightarrow> bool" where
  "in_ranges c rs = list_ex (\<lambda>(lo, hi). lo \<le> c \<and> c \<le> hi) rs"

definition is_space :: "nat \<Rightarrow> bool" where
  "is_space c = in_ranges c
     [(9, 13), (28, 32), (133, 133), (160, 160), (5760, 5760), (8192, 8202), (8232, 8233),
      (8239, 8239), (8287, 8287), (12288, 12288)]"

definition is_decimal :: "nat \<Rightarrow> bool" where
  "is_decimal c = in_ranges c
     [(48, 57), (1632, 1641), (1776, 1785), (1984, 1993), (2406, 2415), (2534, 2543),
      (2662, 2671), (2790, 2799), (2918, 2927), (3046, 3055), (3174, 3183), (3302, 3311),
      (3430, 3439), (3558, 3567), (3664, 3673), (3792, 3801), (3872, 3881), (4160, 4169),
      (4240, 4249), (6112, 6121), (6160, 6169), (6470, 6479), (6608, 6617), (6784, 6793),
      (6800, 6809), (6992, 7001), (7088, 7097), (7232, 7241), (7248, 7257), (42528, 42537),
      (43216, 43225), (43264, 43273), (43472, 43481), (43504, 43513), (43600, 43609),
      (44016, 44025), (65296, 65305), (66720, 66729), (68912, 68921), (69734, 69743),
      (69872, 69881), (69942, 69951), (70096, 70105), (70384, 70393), (70736, 70745),
      (70864, 70873), (71248, 71257), (71360, 71369), (71472, 71481), (71904, 71913),
      (72016, 72025), (72784, 72793), (73040, 73049), (73120, 73129), (92768, 92777),
      (92864, 92873), (93008, 93017), (120782, 120831), (123200, 123209), (123632, 123641),
      (125264, 125273), (130032, 130041)]"

definition is_digit :: "nat \<Rightarrow> bool" where
  "is_digit c = in_ranges c
     [(48, 57), (178, 179), (185, 185), (1632, 1641), (1776, 1785), (1984, 1993),
      (2406, 2415), (2534, 2543), (2662, 2671), (2790, 2799), (2918, 2927), (3046, 3055),
      (3174, 3183), (3302, 3311), (3430, 3439), (3558, 3567), (3664, 3673), (3792, 3801),
      (3872, 3881), (4160, 4169), (4240, 4249), (4969, 4977), (6112, 6121), (6160, 6169),
      (6470, 6479), (6608, 6618), (6784, 6793), (6800, 6809), (6992, 7001), (7088, 7097),
      (7232, 7241), (7248, 7257), (8304, 8304), (8308, 8313), (8320, 8329), (9312, 9320),
      (9332, 9340), (9352, 9360), (9450, 9450), (9461, 9469), (9471, 9471), (10102, 10110),
      (10112, 10120), (10122, 10130), (42528, 42537), (43216, 43225), (43264, 43273),
      (43472, 43481), (43504, 43513), (43600, 43609), (44016, 44025), (65296, 65305),
      (66720, 66729), (68160, 68163), (68912, 68921), (69216, 69224), (69714, 69722),
      (69734, 69743), (69872, 69881), (69942, 69951), (70096, 70105), (70384, 70393),
      (70736, 70745), (70864, 70873), (71248, 71257), (71360, 71369), (71472, 71481),
      (71904, 71913), (72016, 72025), (72784, 72793), (73040, 73049), (73120, 73129),
      (92768, 92777), (92864, 92873), (93008, 93017), (120782, 120831), (123200, 123209),
      (123632, 123641), (125264, 125273), (127232, 127242), (130032, 130041)]"

subsection \<open>String methods\<close>

text \<open>\<open>s.strip()\<close>: leading and trailing whitespace removed.\<close>

definition lstrip :: "ustring \<Rightarrow> ustring" where
  "lstrip s = dropWhile is_space s"

definition rstrip :: "ustring \<Rightarrow> ustring" where
  "rstrip s = rev (dropWhile is_space (rev s))"

definition strip :: "ustring \<Rightarrow> ustring" where
  "strip s = rstrip (lstrip s)"

text \<open>
  \<open>text.split('\n')\<close>: the pieces between the newlines (code point 10); the result is
  never empty, and \<open>''.split('\n')\<close> is \<open>['']\<close>.
\<close>

fun split_newline :: "ustring \<Rightarrow> ustring list" where
  "split_newline [] = [[]]"
| "split_newline (c # cs) =
     (if c = 10 then [] # split_newline cs
      else (case split_newline cs of
              [] \<Rightarrow> [[c]]
            | l # ls \<Rightarrow> (c # l) # ls))"

text \<open>\<open>sep.join(xs)\<close>\<close>

fun join :: "ustring \<Rightarrow> ustring list \<Rightarrow> ustring" where
  "join sep [] = []"
| "join sep [x] = x"
| "join sep (x # y # ys) = x @ sep @ join sep (y # ys)"




section \<open>Hybrid retrieval (src/hybrid\_retriever.py)\<close>

text \<open>
  A candidate is a dict with the keys \<open>text\<close> and \<open>metadata\<close>, and the score keys that the
  retrieval steps add: \<open>bm25_score\<close> (lexical search), \<open>distance\<close> and \<open>score\<close> (semantic
  search), \<open>hybrid_score\<close> (fusion). An absent key is \<open>None\<close>.
\<close>

record metadata =
  subject :: ustring
  filename :: ustring
  source :: ustring
  chunk_id :: nat

record doc =
  "text" :: ustring
  metadata :: metadata
  bm25_score :: "rat option"
  distance :: "rat option"
  score :: "rat option"
  hybrid_score :: "rat option"

text \<open>config.HYBRID\_SEARCH\_WEIGHTS\<close>

datatype weight_key = semantic | bm25

fun HYBRID_SEARCH_WEIGHTS :: "weight_key \<Rightarrow> rat" where
  "HYBRID_SEARCH_WEIGHTS semantic = 6 / 10"
| "HYBRID_SEARCH_WEIGHTS bm25 = 4 / 10"

subsection \<open>The lexical index\<close>











subsection \<open>reciprocal\_rank\_fusion\<close>

text \<open>
  \<open>rrf_scores\<close> is a \<open>defaultdict(float)\<close>: a dict keeps its keys in insertion order, and a
  missing key starts at \<open>0.0\<close>. It is modelled as an association list in insertion order;
  \<open>rrf_scores_add t v\<close> is \<open>rrf_scores[t] += v\<close>.
\<close>

type_synonym rrf_scores = "(ustring \<times> rat) list"
type_synonym doc_map = "ustring \<rightharpoonup> doc"

fun rrf_scores_add :: "ustring \<Rightarrow> rat \<Rightarrow> rrf_scores \<Rightarrow> rrf_scores" where
  "rrf_scores_add t v [] = [(t, 0 + v)]"
| "rrf_scores_add t v ((t', s) # sc) =
     (if t' = t then (t', s + v) # sc else (t', s) # rrf_scores_add t v sc)"

text \<open>
  The first loop, over \<open>enumerate(bm25_results, 1)\<close>. The division \<open>1 / (k + rank)\<close> raises
  \<open>ZeroDivisionError\<close> when \<open>k + rank = 0\<close>; \<open>doc_map[doc_text] = doc\<close> overwrites.
\<close>

fun bm25_pass :: "int \<Rightarrow> int \<Rightarrow> doc list \<Rightarrow> rrf_scores \<times> doc_map
    \<Rightarrow> py_error + rrf_scores \<times> doc_map" where
  "bm25_pass k rank [] st = Inr st"
| "bm25_pass k rank (d # ds) (sc, dm) =
     (if k + rank = 0 then Inl ZeroDivisionError
      else bm25_pass k (rank + 1) ds
             (rrf_scores_add (text d) (HYBRID_SEARCH_WEIGHTS bm25 * (1 / of_int (k + rank))) sc,
              dm(text d \<mapsto> d)))"

text \<open>
  The second loop, over \<open>enumerate(semantic_results, 1)\<close>; \<open>doc_map\<close> is only written when
  the text is not yet a key.
\<close>

fun semantic_pass :: "int \<Rightarrow> int \<Rightarrow> doc list \<Rightarrow> rrf_scores \<times> doc_map
    \<Rightarrow> py_error + rrf_scores \<times> doc_map" where
  "semantic_pass k rank [] st = Inr st"
| "semantic_pass k rank (d # ds) (sc, dm) =
     (if k + rank = 0 then Inl ZeroDivisionError
      else semantic_pass k (rank + 1) ds
             (rrf_scores_add (text d) (HYBRID_SEARCH_WEIGHTS semantic * (1 / of_int (k + rank))) sc,
              (case dm (text d) of None \<Rightarrow> dm(text d \<mapsto> d) | Some _ \<Rightarrow> dm)))"

text \<open>
  \<open>sorted(items, key=..., reverse=True)\<close>: CPython reverses the list, sorts it stably in
  ascending order and reverses the result, so equal keys keep their original order.
\<close>

definition sorted_reverse :: "('a \<Rightarrow> 'k::linorder) \<Rightarrow> 'a list \<Rightarrow> 'a list" where
  "sorted_reverse key xs = rev (sort_key key (rev xs))"

text \<open>The last loop: \<open>doc_map[doc_text]\<close> raises \<open>KeyError\<close> on a missing key.\<close>

fun format_results :: "rrf_scores \<Rightarrow> doc_map \<Rightarrow> py_error + doc list" where
  "format_results [] dm = Inr []"
| "format_results ((t, s) # rest) dm =
     (case dm t of
        None \<Rightarrow> Inl KeyError
      | Some d \<Rightarrow>
          (case format_results rest dm of
             Inl e \<Rightarrow> Inl e
           | Inr results \<Rightarrow> Inr (d\<lparr>hybrid_score := Some s\<rparr> # results)))"

definition reciprocal_rank_fusion :: "doc list \<Rightarrow> doc list \<Rightarrow> int \<Rightarrow> py_error + doc list" where
  "reciprocal_rank_fusion bm25_results semantic_results k =
     (case bm25_pass k 1 bm25_results ([], Map.empty) of
        Inl e \<Rightarrow> Inl e
      | Inr st \<Rightarrow>
          (case semantic_pass k 1 semantic_results st of
             Inl e \<Rightarrow> Inl e
           | Inr (sc, dm) \<Rightarrow> format_results (sorted_reverse snd sc) dm))"

subsection \<open>search\<close>


section \<open>Cleaning and chunking (src/data\_processing.py)\<close>

subsection \<open>Patterns\<close>

text \<open>
  Every regular expression of the file is translated by hand into a function on the text
  at the position where a match is attempted. The patterns only repeat single character
  classes, and a repeated class never shares a character with what follows it, so the
  greedy run (\<open>takeWhile\<close>, \<open>dropWhile\<close>) is the only way a repetition can match.

  \<open>lit p s\<close> matches the literal \<open>p\<close> at the start of \<open>s\<close> and gives the rest.
\<close>

fun lit :: "ustring \<Rightarrow> ustring \<Rightarrow> ustring option" where
  "lit [] s = Some s"
| "lit (p # ps) [] = None"
| "lit (p # ps) (c # cs) = (if c = p then lit ps cs else None)"

text \<open>
  Under \<open>re.IGNORECASE\<close> a letter \<open>p\<close> of a pattern (taken in lower case, \<open>a\<close>..\<open>z\<close>)
  matches the characters whose lower case is \<open>p\<close>: the letter in both cases, and besides
  U+0130 and U+0131 for \<open>i\<close>, U+017F for \<open>s\<close>, U+212A for \<open>k\<close>.
\<close>

definition ci_char :: "nat \<Rightarrow> nat \<Rightarrow> bool" where
  "ci_char p c \<longleftrightarrow>
     c = p \<or> c + 32 = p \<or> (p = 105 \<and> (c = 304 \<or> c = 305)) \<or> (p = 115 \<and> c = 383)
     \<or> (p = 107 \<and> c = 8490)"

fun lit_ci :: "ustring \<Rightarrow> ustring \<Rightarrow> ustring option" where
  "lit_ci [] s = Some s"
| "lit_ci (p # ps) [] = None"
| "lit_ci (p # ps) (c # cs) = (if ci_char p c then lit_ci ps cs else None)"

text \<open>
  A compiled pattern, for \<open>re.sub\<close>: the number of its capturing groups, and the match
  attempted at one position. \<open>match_at p bol s\<close> is given the text \<open>s\<close> from the position on
  and whether the position starts a line (the start of the text, or just after a newline:
  where \<open>^\<close> matches under \<open>re.MULTILINE\<close>); it gives the captured groups and the text
  after the match.
\<close>

record pattern =
  groups :: nat
  match_at :: "bool \<Rightarrow> ustring \<Rightarrow> (ustring list \<times> ustring) option"

text \<open>A replacement template: literal text and group references \<open>\1\<close>, \<open>\2\<close>, ...\<close>

datatype template_item = Lit ustring | Group nat

definition expand :: "template_item list \<Rightarrow> ustring list \<Rightarrow> ustring" where
  "expand template gs =
     concat (map (\<lambda>item. case item of
                            Lit s \<Rightarrow> s
                          | Group n \<Rightarrow> (if 0 < n \<and> n \<le> length gs then gs ! (n - 1) else []))
                 template)"

text \<open>
  The scan of \<open>re.sub\<close>: at each position, from left to right, the match is attempted;
  a match is replaced by the expanded template and the scan goes on after it, otherwise
  the character is copied. No pattern of this file matches the empty string; the branch
  for a match that consumes nothing copies one character, as Python does.
\<close>

function sub_scan :: "pattern \<Rightarrow> template_item list \<Rightarrow> bool \<Rightarrow> ustring \<Rightarrow> ustring" where
  "sub_scan p template bol s =
     (case match_at p bol s of
        Some (gs, rest) \<Rightarrow>
          if length rest < length s
          then expand template gs
               @ sub_scan p template (s ! (length s - length rest - 1) = 10) rest
          else expand template gs
               @ (case s of [] \<Rightarrow> [] | c # cs \<Rightarrow> c # sub_scan p template (c = 10) cs)
      | None \<Rightarrow> (case s of [] \<Rightarrow> [] | c # cs \<Rightarrow> c # sub_scan p template (c = 10) cs))"
  by pat_completeness auto
termination
  by (relation "measure (\<lambda>(p, template, bol, s). length s)") auto

declare sub_scan.simps [simp del]

text \<open>
  \<open>re.sub(pattern, repl, text)\<close> parses the template first and raises \<open>re.error\<close>
  (invalid group reference) when it refers to a group the pattern does not have.
\<close>

definition bad_reference :: "pattern \<Rightarrow> template_item list \<Rightarrow> bool" where
  "bad_reference p template =
     list_ex (\<lambda>item. case item of Lit s \<Rightarrow> False | Group n \<Rightarrow> n = 0 \<or> groups p < n) template"

definition re_sub :: "pattern \<Rightarrow> template_item list \<Rightarrow> ustring \<Rightarrow> py_error + ustring" where
  "re_sub p template txt =
     (if bad_reference p template then Inl re_error else Inr (sub_scan p template True txt))"

subsection \<open>BaseCleaner.basic\_clean\<close>

text \<open>\<open>s.isdigit() and len(s) < 4\<close>\<close>

definition page_number :: "ustring \<Rightarrow> bool" where
  "page_number s \<longleftrightarrow> (s \<noteq> [] \<and> list_all is_digit s) \<and> length s < 4"

text \<open>\<open>len(s) < 3 and not s in ['.', '!', '?']\<close>\<close>

definition noise :: "ustring \<Rightarrow> bool" where
  "noise s \<longleftrightarrow> length s < 3 \<and> s \<notin> set [[46], [33], [63]]"

text \<open>
  \<open>re.match(r'^[-_=]{3,}|^[..]{3,}$', s)\<close>, the second class being U+2014 and U+2013:
  the first alternative has no \<open>$\<close>. Without \<open>re.MULTILINE\<close>, \<open>$\<close> matches at the end of
  the string and before a newline that ends the string.
\<close>

definition dash_line :: "ustring \<Rightarrow> bool" where
  "dash_line s \<longleftrightarrow>
     3 \<le> length (takeWhile (\<lambda>c. c \<in> set [45, 95, 61]) s)
     \<or> (3 \<le> length (takeWhile (\<lambda>c. c \<in> set [0x2014, 0x2013]) s)
        \<and> dropWhile (\<lambda>c. c \<in> set [0x2014, 0x2013]) s \<in> set [[], [10]])"

text \<open>
  \<open>re.match(r'^[-=_\s]+$', s)\<close>: the class contains the newline, so the run reaches the
  end of the string whenever \<open>$\<close> can match.
\<close>

definition separator_line :: "ustring \<Rightarrow> bool" where
  "separator_line s \<longleftrightarrow> s \<noteq> [] \<and> list_all (\<lambda>c. c \<in> set [45, 61, 95] \<or> is_space c) s"

text \<open>The tests of the loop body, in the order of the source: the line is dropped.\<close>

definition dropped :: "ustring \<Rightarrow> bool" where
  "dropped line =
     (let s = strip line in
      if s = [] then True
      else if page_number s then True
      else if noise s then True
      else if dash_line s then True
      else if separator_line s then True
      else False)"

definition basic_clean :: "ustring \<Rightarrow> ustring" where
  "basic_clean txt = join [10] (filter (\<lambda>line. \<not> dropped line) (split_newline txt))"

subsection \<open>ArabicCleaner\<close>

text \<open>\<open>\s[a-zA-Z]\s\<close>\<close>

definition ascii_letter :: "nat \<Rightarrow> bool" where
  "ascii_letter c \<longleftrightarrow> (97 \<le> c \<and> c \<le> 122) \<or> (65 \<le> c \<and> c \<le> 90)"

definition isolated_letter :: pattern where
  "isolated_letter =
     \<lparr>groups = 0,
      match_at = (\<lambda>bol s. case s of
                     a # b # c # rest \<Rightarrow>
                       if is_space a \<and> ascii_letter b \<and> is_space c then Some ([], rest) else None
                   | _ \<Rightarrow> None)\<rparr>"

text \<open>\<open>\s+([...])\<close> with the class of U+060C, U+061B and U+061F\<close>

definition space_before_mark :: pattern where
  "space_before_mark =
     \<lparr>groups = 1,
      match_at = (\<lambda>bol s. case s of
                     [] \<Rightarrow> None
                   | c # cs \<Rightarrow>
                       if is_space c then
                         (case dropWhile is_space cs of
                            [] \<Rightarrow> None
                          | m # rest \<Rightarrow>
                              if m \<in> set [0x60C, 0x61B, 0x61F] then Some ([[m]], rest) else None)
                       else None)\<rparr>"

text \<open>
  The loop over the lines: a line with more than two \<open>|\<close> or more than five \<open>_\<close> is
  skipped.
\<close>

fun arabic_lines :: "ustring list \<Rightarrow> py_error + ustring list" where
  "arabic_lines [] = Inr []"
| "arabic_lines (line # rest) =
     (if 2 < count_list line 124 \<or> 5 < count_list line 95 then arabic_lines rest
      else
        (case re_sub isolated_letter [Lit [32]] line of
           Inl e \<Rightarrow> Inl e
         | Inr line' \<Rightarrow>
             (case arabic_lines rest of
                Inl e \<Rightarrow> Inl e
              | Inr filtered_lines \<Rightarrow> Inr (line' # filtered_lines))))"

definition arabic_clean :: "ustring \<Rightarrow> py_error + ustring" where
  "arabic_clean txt =
     (case arabic_lines (split_newline (basic_clean txt)) of
        Inl e \<Rightarrow> Inl e
      | Inr filtered_lines \<Rightarrow> re_sub space_before_mark [Group 1] (join [10] filtered_lines))"

subsection \<open>MathPhysicsCleaner\<close>

text \<open>
  \<open>^Fig\.?\s*\d+.*$\<close> with \<open>re.MULTILINE\<close>: \<open>\s*\<close> may cross newlines; \<open>.*$\<close> then runs
  to the end of the line where the digits are.
\<close>

definition skip_optional :: "nat \<Rightarrow> ustring \<Rightarrow> ustring" where
  "skip_optional x s = (case s of [] \<Rightarrow> s | c # cs \<Rightarrow> if c = x then cs else s)"

definition caption_rest :: "ustring \<Rightarrow> (ustring list \<times> ustring) option" where
  "caption_rest s =
     (case s of
        [] \<Rightarrow> None
      | d # _ \<Rightarrow> if is_decimal d then Some ([], dropWhile (\<lambda>c. c \<noteq> 10) s) else None)"

definition fig_caption :: pattern where
  "fig_caption =
     \<lparr>groups = 0,
      match_at = (\<lambda>bol s.
         if \<not> bol then None
         else (case lit (ascii ''Fig'') s of
                 None \<Rightarrow> None
               | Some r \<Rightarrow> caption_rest (dropWhile is_space (skip_optional 46 r))))\<rparr>"

text \<open>\<open>text.replace(op, f" {op} ")\<close> for a one-character \<open>op\<close>\<close>

definition pad_operator :: "nat \<Rightarrow> ustring \<Rightarrow> ustring" where
  "pad_operator op txt = concat (map (\<lambda>c. if c = op then [32, op, 32] else [c]) txt)"

text \<open>\<open>[ \t]+\<close>\<close>

definition blanks :: pattern where
  "blanks =
     \<lparr>groups = 0,
      match_at = (\<lambda>bol s. case s of
                     [] \<Rightarrow> None
                   | c # cs \<Rightarrow>
                       if c \<in> set [32, 9]
                       then Some ([], dropWhile (\<lambda>c. c \<in> set [32, 9]) cs) else None)\<rparr>"

text \<open>The operators \<open>=\<close>, \<open>+\<close>, \<open>-\<close>, U+00D7 and U+00F7, in the order of the loop.\<close>

definition math_clean :: "ustring \<Rightarrow> py_error + ustring" where
  "math_clean txt =
     (case re_sub fig_caption [] (basic_clean txt) of
        Inl e \<Rightarrow> Inl e
      | Inr t1 \<Rightarrow> re_sub blanks [Lit [32]] (fold pad_operator [61, 43, 45, 0xD7, 0xF7] t1))"

subsection \<open>ScienceCleaner\<close>

text \<open>
  \<open>^(Fig|Shape|Figure)\.?\s*\(?\d+\)?.*$\<close> with \<open>re.MULTILINE|re.IGNORECASE\<close>: the
  alternatives are tried in order, and the match ends at the end of the line in each case.
\<close>

fun first_match :: "('a \<Rightarrow> 'b option) \<Rightarrow> 'a list \<Rightarrow> 'b option" where
  "first_match f [] = None"
| "first_match f (x # xs) = (case f x of None \<Rightarrow> first_match f xs | Some y \<Rightarrow> Some y)"

definition figure_caption :: pattern where
  "figure_caption =
     \<lparr>groups = 1,
      match_at = (\<lambda>bol s.
         if \<not> bol then None
         else first_match
                (\<lambda>w. case lit_ci w s of
                        None \<Rightarrow> None
                      | Some r \<Rightarrow>
                          (case caption_rest
                                  (skip_optional 40 (dropWhile is_space (skip_optional 46 r))) of
                             None \<Rightarrow> None
                           | Some (gs, rest) \<Rightarrow> Some ([take (length w) s], rest)))
                [ascii ''fig'', ascii ''shape'', ascii ''figure''])\<rparr>"

text \<open>
  \<open>^\s*[A-Z]\s*$\<close> with \<open>re.MULTILINE\<close>: after the letter, the greedy \<open>\s*\<close> is given
  back until \<open>$\<close> matches, that is at the end of the text or before the last newline of
  the run of whitespace.
\<close>

definition lone_capital :: pattern where
  "lone_capital =
     \<lparr>groups = 0,
      match_at = (\<lambda>bol s.
         if \<not> bol then None
         else (case dropWhile is_space s of
                 [] \<Rightarrow> None
               | c # cs \<Rightarrow>
                   if 65 \<le> c \<and> c \<le> 90 then
                     (let run = takeWhile is_space cs; rest = dropWhile is_space cs
                      in if rest = [] then Some ([], [])
                         else if 10 \<in> set run
                         then Some ([], 10 # rev (takeWhile (\<lambda>c. c \<noteq> 10) (rev run)) @ rest)
                         else None)
                   else None))\<rparr>"

text \<open>\<open>^\s*[...]\s*\<close> with \<open>re.MULTILINE\<close> and the class of U+00B7, U+2022 and U+25CF\<close>

definition bullet :: pattern where
  "bullet =
     \<lparr>groups = 0,
      match_at = (\<lambda>bol s.
         if \<not> bol then None
         else (case dropWhile is_space s of
                 [] \<Rightarrow> None
               | c # cs \<Rightarrow>
                   if c \<in> set [0xB7, 0x2022, 0x25CF] then Some ([], dropWhile is_space cs)
                   else None))\<rparr>"

definition science_clean :: "ustring \<Rightarrow> py_error + ustring" where
  "science_clean txt =
     (case re_sub figure_caption [] (basic_clean txt) of
        Inl e \<Rightarrow> Inl e
      | Inr t1 \<Rightarrow>
          (case re_sub lone_capital [] t1 of
             Inl e \<Rightarrow> Inl e
           | Inr t2 \<Rightarrow> re_sub bullet [Lit [45, 32]] t2))"

subsection \<open>EnglishCleaner\<close>

text \<open>\<open>\s+([A-D]\.)\s+\<close>, replaced by \<open>\n\1\<close> and a space\<close>

definition option_marker :: pattern where
  "option_marker =
     \<lparr>groups = 1,
      match_at = (\<lambda>bol s. case s of
                     [] \<Rightarrow> None
                   | c # cs \<Rightarrow>
                       if is_space c then
                         (case dropWhile is_space cs of
                            l # d # w # rest \<Rightarrow>
                              if 65 \<le> l \<and> l \<le> 68 \<and> d = 46 \<and> is_space w
                              then Some ([[l, d]], dropWhile is_space rest) else None
                          | _ \<Rightarrow> None)
                       else None)\<rparr>"

definition english_clean :: "ustring \<Rightarrow> py_error + ustring" where
  "english_clean txt = re_sub option_marker [Lit [10], Group 1, Lit [32]] (basic_clean txt)"

subsection \<open>The cleaners of a DocumentProcessor\<close>

datatype cleaner = ArabicCleaner | MathPhysicsCleaner | ScienceCleaner | EnglishCleaner

fun clean :: "cleaner \<Rightarrow> ustring \<Rightarrow> py_error + ustring" where
  "clean ArabicCleaner txt = arabic_clean txt"
| "clean MathPhysicsCleaner txt = math_clean txt"
| "clean ScienceCleaner txt = science_clean txt"
| "clean EnglishCleaner txt = english_clean txt"

text \<open>
  \<open>self.cleaners\<close> and \<open>get_cleaner\<close>: \<open>self.cleaners.get(subject.lower(), EnglishCleaner())\<close>;
  \<open>str.lower()\<close> is a parameter, as above.
\<close>

definition cleaners :: "ustring \<rightharpoonup> cleaner" where
  "cleaners =
     [ascii ''arabic'' \<mapsto> ArabicCleaner,
      ascii ''math'' \<mapsto> MathPhysicsCleaner,
      ascii ''physics'' \<mapsto> MathPhysicsCleaner,
      ascii ''chemistry'' \<mapsto> ScienceCleaner,
      ascii ''biology'' \<mapsto> ScienceCleaner,
      ascii ''english'' \<mapsto> EnglishCleaner]"

definition get_cleaner :: "(ustring \<Rightarrow> ustring) \<Rightarrow> ustring \<Rightarrow> cleaner" where
  "get_cleaner lower subj = (case cleaners (lower subj) of None \<Rightarrow> EnglishCleaner | Some c \<Rightarrow> c)"

subsection \<open>DocumentStructureChunker\<close>

text \<open>
  \<open>self.separators\<close>: four patterns, each anchored at the start of the line by \<open>^\<close> and
  searched with \<open>re.IGNORECASE\<close>.

  \<open>spaces_digits\<close> is \<open>\s+\d+\<close> at the start of a string.
\<close>

definition spaces_digits :: "ustring \<Rightarrow> bool" where
  "spaces_digits s =
     (case s of
        [] \<Rightarrow> False
      | c # cs \<Rightarrow>
          is_space c \<and> (case dropWhile is_space cs of [] \<Rightarrow> False | d # _ \<Rightarrow> is_decimal d))"

text \<open>\<open>^(Chapter|Unit|Lesson|Lecture)\s+\d+\<close>\<close>

definition sep_english :: "ustring \<Rightarrow> bool" where
  "sep_english line =
     list_ex (\<lambda>w. case lit_ci w line of None \<Rightarrow> False | Some rest \<Rightarrow> spaces_digits rest)
       [ascii ''chapter'', ascii ''unit'', ascii ''lesson'', ascii ''lecture'']"

text \<open>\<open>^Section\s+\d+\<close>\<close>

definition sep_section :: "ustring \<Rightarrow> bool" where
  "sep_section line =
     (case lit_ci (ascii ''section'') line of None \<Rightarrow> False | Some rest \<Rightarrow> spaces_digits rest)"

text \<open>
  The Arabic pattern: one of five head words, \<open>\s+\<close>, then one of ten words or \<open>\d+\<close>.
  The words are given by their code points, in the order of the source. Arabic letters
  have no case, so \<open>re.IGNORECASE\<close> changes nothing here.
\<close>

definition arabic_heads :: "ustring list" where
  "arabic_heads =
     [[0x627, 0x644, 0x628, 0x627, 0x628],
      [0x627, 0x644, 0x641, 0x635, 0x644],
      [0x627, 0x644, 0x62F, 0x631, 0x633],
      [0x627, 0x644, 0x648, 0x62D, 0x62F, 0x629],
      [0x627, 0x644, 0x645, 0x62D, 0x627, 0x636, 0x631, 0x629]]"

definition arabic_ordinals :: "ustring list" where
  "arabic_ordinals =
     [[0x627, 0x644, 0x623, 0x648, 0x644],
      [0x627, 0x644, 0x62B, 0x627, 0x646, 0x64A],
      [0x627, 0x644, 0x62B, 0x627, 0x644, 0x62B],
      [0x627, 0x644, 0x631, 0x627, 0x628, 0x639],
      [0x627, 0x644, 0x62E, 0x627, 0x645, 0x633],
      [0x627, 0x644, 0x633, 0x627, 0x62F, 0x633],
      [0x627, 0x644, 0x633, 0x627, 0x628, 0x639],
      [0x627, 0x644, 0x62B, 0x627, 0x645, 0x646],
      [0x627, 0x644, 0x62A, 0x627, 0x633, 0x639],
      [0x639, 0x634, 0x631]]"

definition spaces_ordinal :: "ustring \<Rightarrow> bool" where
  "spaces_ordinal s =
     (case s of
        [] \<Rightarrow> False
      | c # cs \<Rightarrow>
          is_space c \<and>
          (let r = dropWhile is_space cs
           in list_ex (\<lambda>w. lit w r \<noteq> None) arabic_ordinals
              \<or> (case r of [] \<Rightarrow> False | d # _ \<Rightarrow> is_decimal d)))"

definition sep_arabic :: "ustring \<Rightarrow> bool" where
  "sep_arabic line =
     list_ex (\<lambda>w. case lit w line of None \<Rightarrow> False | Some rest \<Rightarrow> spaces_ordinal rest)
       arabic_heads"

text \<open>\<open>^\d+\s*-\s*\<close>\<close>

definition sep_numbered :: "ustring \<Rightarrow> bool" where
  "sep_numbered line =
     (case line of
        [] \<Rightarrow> False
      | d # ds \<Rightarrow>
          is_decimal d \<and>
          (case dropWhile is_space (dropWhile is_decimal ds) of
             [] \<Rightarrow> False
           | c # _ \<Rightarrow> c = 45))"

definition separators :: "(ustring \<Rightarrow> bool) list" where
  "separators = [sep_english, sep_section, sep_arabic, sep_numbered]"

definition is_header :: "ustring \<Rightarrow> bool" where
  "is_header line = list_ex (\<lambda>sep. sep line) separators"

text \<open>\<open>line.endswith((...))\<close> with the five marks \<open>.\<close> \<open>:\<close> \<open>!\<close> \<open>?\<close> and the Arabic question mark U+061F.\<close>

definition ends_sentence :: "ustring \<Rightarrow> bool" where
  "ends_sentence line \<longleftrightarrow> line \<noteq> [] \<and> last line \<in> set [46, 58, 33, 63, 0x61F]"

text \<open>
  The loop of \<open>_reconstruct_paragraphs\<close>, on the state \<open>(reconstructed, current_para)\<close>.
\<close>

fun reconstruct_loop :: "ustring list \<Rightarrow> ustring list \<times> ustring list
    \<Rightarrow> ustring list \<times> ustring list" where
  "reconstruct_loop [] st = st"
| "reconstruct_loop (raw # rest) (reconstructed, current_para) =
     (let line = strip raw in
      if line = [] then
        (if current_para \<noteq> []
         then reconstruct_loop rest (reconstructed @ [join [32] current_para], [])
         else reconstruct_loop rest (reconstructed, current_para))
      else if is_header line then
        (if current_para \<noteq> []
         then reconstruct_loop rest
                (reconstructed @ [join [32] current_para] @ [[10, 10] @ line @ [10, 10]], [])
         else reconstruct_loop rest
                (reconstructed @ [[10, 10] @ line @ [10, 10]], current_para))
      else if ends_sentence line then
        reconstruct_loop rest (reconstructed @ [join [32] (current_para @ [line])], [])
      else reconstruct_loop rest (reconstructed, current_para @ [line]))"

text \<open>The list \<open>reconstructed\<close> after the loop and the final flush.\<close>

definition reconstructed_list :: "ustring list \<Rightarrow> ustring list" where
  "reconstructed_list lines =
     (case reconstruct_loop lines ([], []) of
        (reconstructed, current_para) \<Rightarrow>
          if current_para \<noteq> [] then reconstructed @ [join [32] current_para]
          else reconstructed)"

definition reconstruct_paragraphs :: "ustring \<Rightarrow> ustring" where
  "reconstruct_paragraphs txt = join [10, 10] (reconstructed_list (split_newline txt))"

text \<open>
  \<open>split_text\<close>: the reconstructed text goes to \<open>RecursiveCharacterTextSplitter\<close> of the
  library \<open>langchain_text_splitters\<close>, a parameter of the model.
\<close>

definition split_text :: "(ustring \<Rightarrow> ustring list) \<Rightarrow> ustring \<Rightarrow> ustring list" where
  "split_text text_splitter txt = text_splitter (reconstruct_paragraphs txt)"

subsection \<open>DocumentProcessor.process\_element\_chunks\<close>

text \<open>A \<open>Path\<close>: \<open>pdf_file.name\<close> and \<open>str(pdf_file)\<close>.\<close>

record path =
  path_name :: ustring
  path_str :: ustring

text \<open>The loop over \<open>enumerate(chunks)\<close>.\<close>

fun chunk_records :: "ustring \<Rightarrow> path \<Rightarrow> (nat \<times> ustring) list \<Rightarrow> doc list" where
  "chunk_records subj pdf_file [] = []"
| "chunk_records subj pdf_file ((idx, chunk_text) # rest) =
     (if length (strip chunk_text) < 50 then chunk_records subj pdf_file rest
      else
        \<lparr>text = chunk_text,
         metadata = \<lparr>subject = subj, filename = path_name pdf_file,
                     source = path_str pdf_file, chunk_id = idx\<rparr>,
         bm25_score = None, distance = None, score = None, hybrid_score = None\<rparr>
        # chunk_records subj pdf_file rest)"

definition process_element_chunks ::
    "(ustring \<Rightarrow> ustring list) \<Rightarrow> ustring \<Rightarrow> path \<Rightarrow> ustring \<Rightarrow> doc list" where
  "process_element_chunks text_splitter txt pdf_file subj =
     chunk_records subj pdf_file (enumerate 0 (split_text text_splitter txt))"

section \<open>Notions used in the statements\<close>

text \<open>
  The definitions of this section are not taken from the source: they say what the
  statements below are about.
\<close>

subsection \<open>Fusion\<close>

text \<open>
  \<open>rank_sum k rank t ds\<close> adds \<open>1 / (k + r)\<close> over every position \<open>r\<close> (counted from \<open>rank\<close>)
  at which the text \<open>t\<close> stands in the list \<open>ds\<close>.
\<close>

fun rank_sum :: "int \<Rightarrow> int \<Rightarrow> ustring \<Rightarrow> doc list \<Rightarrow> rat" where
  "rank_sum k rank t [] = 0"
| "rank_sum k rank t (d # ds) =
     (if text d = t then 1 / of_int (k + rank) else 0) + rank_sum k (rank + 1) t ds"

definition fused_score :: "int \<Rightarrow> doc list \<Rightarrow> doc list \<Rightarrow> ustring \<Rightarrow> rat" where
  "fused_score k b s t =
     HYBRID_SEARCH_WEIGHTS bm25 * rank_sum k 1 t b + HYBRID_SEARCH_WEIGHTS semantic * rank_sum k 1 t s"

text \<open>
  The formula in the words of the specification: the rank of a text in a list is its
  1-based position (the first, should there be several), \<open>None\<close> when it is absent; an
  absent rank contributes \<open>0\<close>.
\<close>

fun rank_from :: "int \<Rightarrow> ustring \<Rightarrow> doc list \<Rightarrow> int option" where
  "rank_from r t [] = None"
| "rank_from r t (d # ds) = (if text d = t then Some r else rank_from (r + 1) t ds)"

definition rrf_term :: "rat \<Rightarrow> int \<Rightarrow> int option \<Rightarrow> rat" where
  "rrf_term w k r = (case r of None \<Rightarrow> 0 | Some p \<Rightarrow> w * (1 / of_int (k + p)))"

definition claimed_fused_score :: "int \<Rightarrow> doc list \<Rightarrow> doc list \<Rightarrow> ustring \<Rightarrow> rat" where
  "claimed_fused_score k b s t =
     rrf_term (HYBRID_SEARCH_WEIGHTS bm25) k (rank_from 1 t b)
     + rrf_term (HYBRID_SEARCH_WEIGHTS semantic) k (rank_from 1 t s)"

text \<open>
  \<open>first_pos t xs\<close> is the index at which \<open>t\<close> is first seen in \<open>xs\<close>.
  \<open>ranked_before seen d d'\<close>: both candidates carry a fused score, and \<open>d\<close> has the higher
  one, or the scores are equal and the text of \<open>d\<close> is seen first in \<open>seen\<close>.
\<close>

definition first_pos :: "'a \<Rightarrow> 'a list \<Rightarrow> nat" where
  "first_pos t xs = length (takeWhile (\<lambda>x. x \<noteq> t) xs)"


text \<open>
  The record that the fusion keeps for a text: the last entry of the lexical list with
  that text if there is one, otherwise the first such entry of the semantic list.
\<close>

definition kept_record :: "doc list \<Rightarrow> doc list \<Rightarrow> ustring \<Rightarrow> doc option" where
  "kept_record b s t =
     (case find (\<lambda>d. text d = t) (rev b) of
        Some d \<Rightarrow> Some d
      | None \<Rightarrow> find (\<lambda>d. text d = t) s)"

subsection \<open>The two passes without their error branch\<close>

definition score_of :: "rrf_scores \<Rightarrow> ustring \<Rightarrow> rat" where
  "score_of sc t = (case map_of sc t of None \<Rightarrow> 0 | Some v \<Rightarrow> v)"

fun add_ranks :: "rat \<Rightarrow> int \<Rightarrow> int \<Rightarrow> doc list \<Rightarrow> rrf_scores \<Rightarrow> rrf_scores" where
  "add_ranks w k rank [] sc = sc"
| "add_ranks w k rank (d # ds) sc =
     add_ranks w k (rank + 1) ds (rrf_scores_add (text d) (w * (1 / of_int (k + rank))) sc)"

definition bm25_docs :: "doc list \<Rightarrow> doc_map \<Rightarrow> doc_map" where
  "bm25_docs ds dm = fold (\<lambda>d m. m(text d \<mapsto> d)) ds dm"

definition semantic_docs :: "doc list \<Rightarrow> doc_map \<Rightarrow> doc_map" where
  "semantic_docs ds dm =
     fold (\<lambda>d m. case m (text d) of None \<Rightarrow> m(text d \<mapsto> d) | Some _ \<Rightarrow> m) ds dm"

definition add_key :: "'a \<Rightarrow> 'a list \<Rightarrow> 'a list" where
  "add_key t ks = (if t \<in> set ks then ks else ks @ [t])"

definition keys_inv :: "'a list \<Rightarrow> 'a list \<Rightarrow> bool" where
  "keys_inv P ks \<longleftrightarrow>
     distinct ks \<and> set ks = set P \<and> sorted_wrt (\<lambda>a b. first_pos a P < first_pos b P) ks"

text \<open>
  A rank of the list \<open>ds\<close> makes \<open>k + rank\<close> zero; and the result of the fusion when no rank
  does.
\<close>

definition zero_rank :: "int \<Rightarrow> doc list \<Rightarrow> bool" where
  "zero_rank k ds \<longleftrightarrow> k + 1 \<le> 0 \<and> 0 < k + 1 + int (length ds)"

definition fused_scores :: "int \<Rightarrow> doc list \<Rightarrow> doc list \<Rightarrow> rrf_scores" where
  "fused_scores k b s =
     add_ranks (HYBRID_SEARCH_WEIGHTS semantic) k 1 s (add_ranks (HYBRID_SEARCH_WEIGHTS bm25) k 1 b [])"

definition fused_results :: "int \<Rightarrow> doc list \<Rightarrow> doc list \<Rightarrow> doc list" where
  "fused_results k b s =
     map (\<lambda>(t, v). (the (kept_record b s t))\<lparr>hybrid_score := Some v\<rparr>)
       (sorted_reverse snd (fused_scores k b s))"

subsection \<open>Search\<close>






fun ranked :: "rat \<Rightarrow> int \<Rightarrow> int \<Rightarrow> doc list \<Rightarrow> rrf_scores" where
  "ranked w k rank [] = []"
| "ranked w k rank (d # ds) = (text d, w * (1 / of_int (k + rank))) # ranked w k (rank + 1) ds"

subsection \<open>Example data\<close>

text \<open>A candidate of the subject \<open>math\<close> with the text \<open>t\<close> and the chunk number \<open>n\<close>.\<close>

definition chunk_of :: "ustring \<Rightarrow> nat \<Rightarrow> doc" where
  "chunk_of t n =
     \<lparr>text = t,
      metadata = \<lparr>subject = ascii ''math'', filename = ascii ''algebra.pdf'',
                  source = ascii ''data/math/algebra.pdf'', chunk_id = n\<rparr>,
      bm25_score = None, distance = None, score = None, hybrid_score = None\<rparr>"




text \<open>A lexical list in which two chunks have the same text.\<close>

definition twice_lexical :: "doc list" where
  "twice_lexical = [chunk_of (ascii ''Unit 1'') 0, chunk_of (ascii ''Unit 1'') 7]"

text \<open>
  A lexical and a semantic list that share the text \<open>B\<close>, as the two searches return them,
  and their fusion with \<open>k = 60\<close>.
\<close>

definition both_lexical :: "doc list" where
  "both_lexical =
     [(chunk_of (ascii ''A'') 0)\<lparr>bm25_score := Some 3\<rparr>,
      (chunk_of (ascii ''B'') 1)\<lparr>bm25_score := Some 2\<rparr>]"

definition both_semantic :: "doc list" where
  "both_semantic =
     [(chunk_of (ascii ''B'') 1)\<lparr>distance := Some (1 / 2), score := Some (2 / 3)\<rparr>,
      (chunk_of (ascii ''C'') 2)\<lparr>distance := Some 1, score := Some (1 / 2)\<rparr>]"

definition both_fused :: "doc list" where
  "both_fused =
     [(chunk_of (ascii ''B'') 1)\<lparr>bm25_score := Some 2, hybrid_score := Some (154 / 9455)\<rparr>,
      (chunk_of (ascii ''C'') 2)\<lparr>distance := Some 1, score := Some (1 / 2),
         hybrid_score := Some (3 / 310)\<rparr>,
      (chunk_of (ascii ''A'') 0)\<lparr>bm25_score := Some 3, hybrid_score := Some (2 / 305)\<rparr>]"






text \<open>
  Chunking examples. The splitter of the library is a parameter; the two functions below
  stand for it on one text each. \<open>RecursiveCharacterTextSplitter\<close> with chunk size 600
  emits a short heading as a chunk of its own when the paragraph after it has 600
  characters or more, as in \<open>header_then_paragraph\<close>.
\<close>

definition header_then_paragraph :: "ustring \<Rightarrow> ustring list" where
  "header_then_paragraph txt = [ascii ''Chapter 1'', replicate 600 120]"

definition algebra_pdf :: path where
  "algebra_pdf = \<lparr>path_name = ascii ''algebra.pdf'', path_str = ascii ''data/math/algebra.pdf''\<rparr>"

definition chapter_text :: ustring where
  "chapter_text = ascii ''Chapter 1'' @ [10] @ replicate 600 120"


text \<open>
  Text examples. Two heading lines, as code points: the head word U+0627 U+0644 U+0641
  U+0635 U+0644 (chapter) followed by the first ordinal (U+0627 U+0644 U+0623 U+0648
  U+0644) and by the tenth (U+0627 U+0644 U+0639 U+0627 U+0634 U+0631); \<open>around line\<close>
  puts a line between two lines of running text.
\<close>

definition first_chapter :: ustring where
  "first_chapter = [0x627, 0x644, 0x641, 0x635, 0x644, 32, 0x627, 0x644, 0x623, 0x648, 0x644]"

definition tenth_chapter :: ustring where
  "tenth_chapter = [0x627, 0x644, 0x641, 0x635, 0x644, 32, 0x627, 0x644, 0x639, 0x627, 0x634, 0x631]"

definition around :: "ustring \<Rightarrow> ustring" where
  "around line = ascii ''intro'' @ [10] @ line @ [10] @ ascii ''more''"

text \<open>
  Three lines, the second a figure caption, and the text after one and after two passes of
  the cleaner for mathematics and physics.
\<close>

definition caption_text :: ustring where
  "caption_text = ascii ''abc'' @ [10] @ ascii ''Fig 1'' @ [10] @ ascii ''xyz''"

definition cleaned_once :: ustring where
  "cleaned_once = ascii ''abc'' @ [10, 10] @ ascii ''xyz''"

definition cleaned_twice :: ustring where
  "cleaned_twice = ascii ''abc'' @ [10] @ ascii ''xyz''"

section \<open>Reciprocal rank fusion: lemmas\<close>

lemma score_of_add:
  "score_of (rrf_scores_add t v sc) t' = score_of sc t' + (if t' = t then v else 0)"
  by (induction sc) (auto simp: score_of_def)

lemma keys_add: "map fst (rrf_scores_add t v sc) = add_key t (map fst sc)"
  by (induction sc) (force simp: add_key_def)+

lemma score_of_add_ranks:
  "score_of (add_ranks w k rank ds sc) t = score_of sc t + w * rank_sum k rank t ds"
  by (induction ds arbitrary: rank sc) (auto simp: score_of_add algebra_simps)

lemma keys_add_ranks:
  "map fst (add_ranks w k rank ds sc) = fold add_key (map text ds) (map fst sc)"
  by (induction ds arbitrary: rank sc) (auto simp: keys_add)

lemma bm25_pass_eq:
  "bm25_pass k rank ds (sc, dm) =
     (if k + rank \<le> 0 \<and> 0 < k + rank + int (length ds) then Inl ZeroDivisionError
      else Inr (add_ranks (HYBRID_SEARCH_WEIGHTS bm25) k rank ds sc, bm25_docs ds dm))"
  by (induction ds arbitrary: rank sc dm) (auto simp: bm25_docs_def)

lemma semantic_pass_eq:
  "semantic_pass k rank ds (sc, dm) =
     (if k + rank \<le> 0 \<and> 0 < k + rank + int (length ds) then Inl ZeroDivisionError
      else Inr (add_ranks (HYBRID_SEARCH_WEIGHTS semantic) k rank ds sc, semantic_docs ds dm))"
  by (induction ds arbitrary: rank sc dm) (auto simp: semantic_docs_def)

lemma format_results_eq:
  "fst ` set sc \<subseteq> dom dm \<Longrightarrow>
   format_results sc dm = Inr (map (\<lambda>(t, v). (the (dm t))\<lparr>hybrid_score := Some v\<rparr>) sc)"
  by (induction sc) (auto split: option.splits sum.splits)

subsection \<open>Keys in first-seen order\<close>

lemma first_pos_append_mem: "a \<in> set P \<Longrightarrow> first_pos a (P @ xs) = first_pos a P"
  by (induction P) (auto simp: first_pos_def)

lemma first_pos_less: "a \<in> set P \<Longrightarrow> first_pos a P < length P"
  by (induction P) (auto simp: first_pos_def)

lemma first_pos_new: "x \<notin> set P \<Longrightarrow> first_pos x (P @ x # xs) = length P"
  by (induction P) (auto simp: first_pos_def)

lemma keys_inv_step:
  assumes "keys_inv P ks"
  shows "keys_inv (P @ [x]) (add_key x ks)"
proof -
  from assms have d: "distinct ks" and s: "set ks = set P"
    and o: "sorted_wrt (\<lambda>a b. first_pos a P < first_pos b P) ks"
    by (simp_all add: keys_inv_def)
  have o': "sorted_wrt (\<lambda>a b. first_pos a (P @ [x]) < first_pos b (P @ [x])) ks"
    using o by (rule sorted_wrt_mono_rel [rotated]) (simp add: s first_pos_append_mem)
  show ?thesis
  proof (cases "x \<in> set ks")
    case True
    with d s o' show ?thesis by (simp add: keys_inv_def add_key_def insert_absorb)
  next
    case False
    then have "\<forall>a\<in>set ks. first_pos a (P @ [x]) < first_pos x (P @ [x])"
      using s by (simp add: first_pos_append_mem first_pos_new first_pos_less)
    with False d s o' show ?thesis
      by (simp add: keys_inv_def add_key_def sorted_wrt_append)
  qed
qed

lemma keys_inv_fold: "keys_inv P ks \<Longrightarrow> keys_inv (P @ xs) (fold add_key xs ks)"
proof (induction xs arbitrary: P ks)
  case Nil
  then show ?case by simp
next
  case (Cons x xs)
  from Cons.IH [OF keys_inv_step [OF Cons.prems, of x]] show ?case by simp
qed

lemma keys_inv_first_seen: "keys_inv xs (fold add_key xs [])"
  using keys_inv_fold [of "[]" "[]" xs] by (simp add: keys_inv_def)

subsection \<open>The stable descending sort\<close>




lemma set_sorted_reverse [simp]: "set (sorted_reverse f xs) = set xs"
  by (simp add: sorted_reverse_def)

lemma distinct_sorted_reverse [simp]: "distinct (sorted_reverse f xs) = distinct xs"
  by (simp add: sorted_reverse_def)

lemma length_sorted_reverse [simp]: "length (sorted_reverse f xs) = length xs"
  by (simp add: sorted_reverse_def)

lemma mset_sorted_reverse [simp]: "mset (sorted_reverse f xs) = mset xs"
  by (simp add: sorted_reverse_def)


subsection \<open>The kept records\<close>

lemma bm25_docs_snoc: "bm25_docs (ds @ [d]) dm = (bm25_docs ds dm)(text d \<mapsto> d)"
  by (simp add: bm25_docs_def)

lemma bm25_docs_eq:
  "bm25_docs ds dm t = (case find (\<lambda>d. text d = t) (rev ds) of Some d \<Rightarrow> Some d | None \<Rightarrow> dm t)"
  by (induction ds rule: rev_induct) (auto simp: bm25_docs_snoc, simp add: bm25_docs_def)

lemma semantic_docs_eq:
  "semantic_docs ds dm t = (case dm t of Some d \<Rightarrow> Some d | None \<Rightarrow> find (\<lambda>d. text d = t) ds)"
  by (induction ds arbitrary: dm) (auto simp: semantic_docs_def split: option.splits)

lemma doc_map_eq: "semantic_docs s (bm25_docs b Map.empty) t = kept_record b s t"
  by (simp add: semantic_docs_eq bm25_docs_eq kept_record_def split: option.splits)

lemma find_text_None: "find (\<lambda>d. text d = t) ds = None \<longleftrightarrow> t \<notin> text ` set ds"
  by (auto simp: find_None_iff)

lemma find_text_Some: "find (\<lambda>d. text d = t) ds = Some d \<Longrightarrow> d \<in> set ds \<and> text d = t"
  by (auto simp: find_Some_iff)

lemma kept_record_Some:
  "t \<in> text ` set (b @ s) \<Longrightarrow> \<exists>d. kept_record b s t = Some d \<and> text d = t \<and> d \<in> set (b @ s)"
proof -
  assume t: "t \<in> text ` set (b @ s)"
  show ?thesis
  proof (cases "find (\<lambda>d. text d = t) (rev b)")
    case None
    then have "t \<notin> text ` set b" by (simp add: find_text_None)
    with t have "t \<in> text ` set s" by auto
    then obtain d where d: "find (\<lambda>d. text d = t) s = Some d"
      using find_text_None [of t s] by auto
    with None find_text_Some [OF d] show ?thesis by (simp add: kept_record_def)
  next
    case (Some d)
    with find_text_Some [OF Some] show ?thesis by (simp add: kept_record_def)
  qed
qed

lemma kept_record_lexical:
  "t \<in> text ` set b \<Longrightarrow> \<exists>d\<in>set b. kept_record b s t = Some d \<and> text d = t"
proof -
  assume "t \<in> text ` set b"
  then obtain d where d: "find (\<lambda>d. text d = t) (rev b) = Some d"
    using find_text_None [of t "rev b"] by auto
  with find_text_Some [OF d] show ?thesis by (simp add: kept_record_def)
qed

subsection \<open>The result of the fusion\<close>

lemma fused_keys_inv: "keys_inv (map text (b @ s)) (map fst (fused_scores k b s))"
  using keys_inv_first_seen [of "map text (b @ s)"]
  by (simp add: fused_scores_def keys_add_ranks)

lemma fused_keys_set: "fst ` set (fused_scores k b s) = text ` set (b @ s)"
  using fused_keys_inv [of b s k] by (simp add: keys_inv_def image_Un del: set_append map_append)

lemma fused_keys_distinct: "distinct (map fst (fused_scores k b s))"
  using fused_keys_inv [of b s k] by (simp add: keys_inv_def)

lemma score_of_Nil: "score_of [] t = 0"
  by (simp add: score_of_def)

lemma fused_score_of: "score_of (fused_scores k b s) t = fused_score k b s t"
  by (simp add: fused_scores_def fused_score_def score_of_add_ranks score_of_Nil)

lemma fused_scores_mem:
  assumes "(t, v) \<in> set (fused_scores k b s)"
  shows "v = fused_score k b s t" and "t \<in> text ` set (b @ s)"
proof -
  from assms fused_keys_distinct [of k b s] have "map_of (fused_scores k b s) t = Some v"
    by simp
  then show "v = fused_score k b s t"
    using fused_score_of [of k b s t] by (simp add: score_of_def)
  from assms have "t \<in> fst ` set (fused_scores k b s)" by force
  then show "t \<in> text ` set (b @ s)" by (simp only: fused_keys_set)
qed

lemma reciprocal_rank_fusion_eq:
  "reciprocal_rank_fusion b s k =
     (if zero_rank k b \<or> zero_rank k s then Inl ZeroDivisionError
      else Inr (fused_results k b s))"
proof -
  let ?sc = "fused_scores k b s"
  let ?dm = "semantic_docs s (bm25_docs b Map.empty)"
  have dm: "?dm = kept_record b s"
    by (rule ext) (rule doc_map_eq)
  have "fst ` set (sorted_reverse snd ?sc) \<subseteq> dom ?dm"
  proof
    fix t assume "t \<in> fst ` set (sorted_reverse snd ?sc)"
    then have "t \<in> text ` set (b @ s)" by (simp only: set_sorted_reverse fused_keys_set)
    from kept_record_Some [OF this] show "t \<in> dom ?dm" by (auto simp: dm)
  qed
  then have "format_results (sorted_reverse snd ?sc) ?dm = Inr (fused_results k b s)"
    by (simp add: format_results_eq fused_results_def dm)
  then show ?thesis
    by (simp add: reciprocal_rank_fusion_def bm25_pass_eq semantic_pass_eq zero_rank_def
        fused_scores_def)
qed

lemma not_zero_rank: "0 \<le> k \<Longrightarrow> \<not> zero_rank k ds"
  by (simp add: zero_rank_def)

subsection \<open>Scores and results\<close>

lemma rank_sum_absent: "t \<notin> text ` set ds \<Longrightarrow> rank_sum k r t ds = 0"
  by (induction ds arbitrary: r) auto

lemma rank_sum_distinct:
  "distinct (map text ds) \<Longrightarrow>
   w * rank_sum k r t ds = rrf_term w k (rank_from r t ds)"
  by (induction ds arbitrary: r) (auto simp: rank_sum_absent rrf_term_def)

lemma rank_sum_nonneg: "0 < k + r \<Longrightarrow> 0 \<le> rank_sum k r t ds"
  by (induction ds arbitrary: r) auto

lemma rank_sum_pos: "0 < k + r \<Longrightarrow> t \<in> text ` set ds \<Longrightarrow> 0 < rank_sum k r t ds"
proof (induction ds arbitrary: r)
  case Nil
  then show ?case by simp
next
  case (Cons d ds)
  have n: "0 \<le> rank_sum k (r + 1) t ds"
    using Cons.prems(1) by (intro rank_sum_nonneg) simp
  show ?case
  proof (cases "text d = t")
    case True
    with n Cons.prems(1) show ?thesis by (simp add: add_pos_nonneg)
  next
    case False
    with Cons.prems have "0 < rank_sum k (r + 1) t ds"
      by (intro Cons.IH) auto
    with False show ?thesis by simp
  qed
qed

lemma fused_score_pos:
  assumes "0 \<le> k" and "t \<in> text ` set (b @ s)"
  shows "0 < fused_score k b s t"
proof -
  have kb: "0 \<le> rank_sum k 1 t b" and ks: "0 \<le> rank_sum k 1 t s"
    using assms(1) by (simp_all add: rank_sum_nonneg)
  from assms(2) consider "t \<in> text ` set b" | "t \<in> text ` set s" by auto
  then show ?thesis
  proof cases
    case 1
    then have "0 < rank_sum k 1 t b" using assms(1) by (simp add: rank_sum_pos)
    with ks show ?thesis by (simp add: fused_score_def add_pos_nonneg)
  next
    case 2
    then have "0 < rank_sum k 1 t s" using assms(1) by (simp add: rank_sum_pos)
    with kb show ?thesis by (simp add: fused_score_def add_nonneg_pos)
  qed
qed

lemma fused_results_mem:
  assumes "d \<in> set (fused_results k b s)"
  shows "\<exists>d0. kept_record b s (text d) = Some d0 \<and> d0 \<in> set (b @ s)
           \<and> d = d0\<lparr>hybrid_score := Some (fused_score k b s (text d))\<rparr>"
proof -
  from assms obtain t v where tv: "(t, v) \<in> set (fused_scores k b s)"
    and d: "d = (the (kept_record b s t))\<lparr>hybrid_score := Some v\<rparr>"
    by (auto simp: fused_results_def)
  from fused_scores_mem [OF tv] have v: "v = fused_score k b s t" and t: "t \<in> text ` set (b @ s)"
    by simp_all
  from kept_record_Some [OF t] obtain d0 where
    d0: "kept_record b s t = Some d0" "text d0 = t" "d0 \<in> set (b @ s)" by blast
  with d v show ?thesis by simp
qed

lemma fused_results_texts:
  "map text (fused_results k b s) = map fst (sorted_reverse snd (fused_scores k b s))"
proof -
  have "text ((the (kept_record b s t))\<lparr>hybrid_score := Some v\<rparr>) = t"
    if "(t, v) \<in> set (sorted_reverse snd (fused_scores k b s))" for t v
  proof -
    from that have "(t, v) \<in> set (fused_scores k b s)" by simp
    from fused_scores_mem(2) [OF this] kept_record_Some [of t b s] show ?thesis by auto
  qed
  then show ?thesis
    by (auto simp: fused_results_def)
qed

lemma fused_results_text_set: "text ` set (fused_results k b s) = text ` set (b @ s)"
proof -
  have "text ` set (fused_results k b s) = set (map text (fused_results k b s))" by simp
  also have "\<dots> = fst ` set (fused_scores k b s)"
    by (simp only: fused_results_texts set_map set_sorted_reverse)
  finally show ?thesis by (simp only: fused_keys_set)
qed

lemma fused_results_distinct: "distinct (map text (fused_results k b s))"
proof -
  have "distinct (sorted_reverse snd (fused_scores k b s))"
    using fused_keys_distinct [of k b s] by (simp add: distinct_map)
  moreover have "inj_on fst (set (fused_scores k b s))"
    using fused_keys_distinct [of k b s] by (simp add: distinct_map)
  ultimately show ?thesis
    by (simp add: fused_results_texts distinct_map)
qed


section \<open>Lexical search and hybrid search: lemmas\<close>


lemma fst_set_ranked: "fst ` set (ranked w k r ds) = text ` set ds"
  by (induction ds arbitrary: r) auto
























section \<open>Chunk records: lemmas\<close>


lemma chunk_records_texts:
  "map text (chunk_records subj pdf ps) = map snd (filter (\<lambda>(i, c). 50 \<le> length (strip c)) ps)"
  by (induction ps) (auto simp: not_less)


lemma filter_enumerate_snd:
  "map snd (filter (\<lambda>(i, c). P c) (enumerate n xs)) = filter P xs"
  by (induction xs arbitrary: n) auto

lemma length_strip_le: "length (strip s) \<le> length s"
proof -
  have "length (strip s) \<le> length (dropWhile is_space s)"
    using length_dropWhile_le [of is_space "rev (dropWhile is_space s)"]
    by (simp add: strip_def rstrip_def lstrip_def)
  also have "\<dots> \<le> length s" by (rule length_dropWhile_le)
  finally show ?thesis .
qed

lemma strip_replicate: "\<not> is_space c \<Longrightarrow> strip (replicate n c) = replicate n c"
  by (cases n) (simp_all add: strip_def lstrip_def rstrip_def replicate_append_same)

section \<open>Lines, headings and cleaners: lemmas\<close>

lemmas header_defs = is_header_def separators_def sep_english_def sep_section_def sep_arabic_def
  sep_numbered_def spaces_digits_def spaces_ordinal_def arabic_heads_def arabic_ordinals_def
  ci_char_def ascii_def is_space_def is_decimal_def in_ranges_def

lemma tenth_not_header: "\<not> is_header tenth_chapter"
  by (simp add: tenth_chapter_def header_defs)

lemma first_is_header: "is_header first_chapter"
  by (simp add: first_chapter_def header_defs)

lemmas strip_defs = strip_def lstrip_def rstrip_def is_space_def in_ranges_def

lemma strip_tenth: "strip tenth_chapter = tenth_chapter"
  by (simp add: tenth_chapter_def strip_defs)

lemma strip_first: "strip first_chapter = first_chapter"
  by (simp add: first_chapter_def strip_defs)

lemma strip_intro: "strip (ascii ''intro'') = ascii ''intro''" "strip (ascii ''more'') = ascii ''more''"
  by (simp_all add: ascii_def strip_defs)

lemma split_newline_not_Nil: "split_newline t \<noteq> []"
  by (induction t) (auto split: list.splits)

lemma split_newline_single: "10 \<notin> set l \<Longrightarrow> split_newline l = [l]"
  by (induction l) auto

lemma split_newline_append:
  "10 \<notin> set l \<Longrightarrow> split_newline (l @ 10 # rest) = l # split_newline rest"
  by (induction l) auto

lemma split_newline_lines: "l \<in> set (split_newline t) \<Longrightarrow> 10 \<notin> set l"
proof (induction t arbitrary: l)
  case Nil
  then show ?case by simp
next
  case (Cons c cs)
  show ?case
  proof (cases "c = 10")
    case True
    with Cons show ?thesis by auto
  next
    case False
    obtain x xs where x: "split_newline cs = x # xs"
      using split_newline_not_Nil [of cs] by (cases "split_newline cs") auto
    with Cons.prems False have "l = c # x \<or> l \<in> set xs" by auto
    then show ?thesis
    proof
      assume "l = c # x"
      moreover have "10 \<notin> set x" using Cons.IH [of x] x by simp
      ultimately show ?thesis using False by simp
    next
      assume "l \<in> set xs"
      then show ?thesis using Cons.IH [of l] x by simp
    qed
  qed
qed

lemma split_newline_join:
  "ls \<noteq> [] \<Longrightarrow> \<forall>l\<in>set ls. 10 \<notin> set l \<Longrightarrow> split_newline (join [10] ls) = ls"
proof (induction ls rule: induct_list012)
  case 1
  then show ?case by simp
next
  case (2 x)
  then show ?case by (simp add: split_newline_single)
next
  case (3 x y ys)
  then show ?case by (simp add: split_newline_append)
qed

lemma split_around:
  "10 \<notin> set line \<Longrightarrow> split_newline (around line) = [ascii ''intro'', line, ascii ''more'']"
  by (simp add: around_def split_newline_append split_newline_single ascii_def)

lemma is_header_Nil: "\<not> is_header []"
  by (simp add: is_header_def separators_def sep_english_def sep_section_def sep_arabic_def
      sep_numbered_def arabic_heads_def ascii_def)

lemma intro_more_plain:
  "\<not> is_header (ascii ''intro'')" "\<not> is_header (ascii ''more'')"
  "\<not> ends_sentence (ascii ''intro'')" "\<not> ends_sentence (ascii ''more'')"
  by (simp_all add: header_defs ends_sentence_def)

lemma strip_keeps_prefix:
  assumes "p \<noteq> []" and "\<not> is_space (hd p)" and "\<not> is_space (last p)"
  shows "strip (p @ rest) = p @ rstrip rest"
proof -
  have l: "lstrip (p @ rest) = p @ rest"
    using assms(1,2) by (cases p) (simp_all add: lstrip_def)
  have r: "dropWhile is_space (rev rest @ rev p) = dropWhile is_space (rev rest) @ rev p"
  proof (cases "\<forall>c\<in>set (rev rest). is_space c")
    case True
    have "dropWhile is_space (rev p) = rev p"
      using assms(1,3) by (cases "rev p") (auto simp: last_rev hd_rev [symmetric])
    moreover from True have "dropWhile is_space (rev rest) = []" by simp
    moreover from True have "dropWhile is_space (rev rest @ rev p) = dropWhile is_space (rev p)"
      by (intro dropWhile_append2) simp
    ultimately show ?thesis by simp
  next
    case False
    then show ?thesis by (auto simp: dropWhile_append1)
  qed
  show ?thesis
    by (simp add: strip_def l rstrip_def r)
qed

lemma dropped_Nil: "dropped []"
  by (simp add: dropped_def strip_def lstrip_def rstrip_def)

lemma basic_clean_Nil: "basic_clean [] = []"
  by (simp add: basic_clean_def dropped_Nil)

lemmas line_defs = dropped_def page_number_def noise_def dash_line_def separator_line_def
  strip_def lstrip_def rstrip_def is_space_def is_digit_def in_ranges_def ascii_def

lemma kept_lines:
  "\<not> dropped (ascii ''abc'')" "\<not> dropped (ascii ''Fig 1'')" "\<not> dropped (ascii ''xyz'')"
  by (simp_all add: line_defs)

lemma basic_caption: "basic_clean caption_text = caption_text"
proof -
  have "split_newline caption_text = [ascii ''abc'', ascii ''Fig 1'', ascii ''xyz'']"
    by (simp add: caption_text_def split_newline_append split_newline_single ascii_def)
  then show ?thesis
    by (simp add: basic_clean_def kept_lines) (simp add: caption_text_def)
qed

lemma basic_once: "basic_clean cleaned_once = cleaned_twice"
proof -
  have "split_newline cleaned_once = [ascii ''abc'', [], ascii ''xyz'']"
    using split_newline_append [of "ascii ''abc''" "10 # ascii ''xyz''"]
      split_newline_append [of "[]" "ascii ''xyz''"]
    by (simp add: cleaned_once_def split_newline_single ascii_def)
  then show ?thesis
    by (simp add: basic_clean_def kept_lines dropped_Nil) (simp add: cleaned_twice_def)
qed

lemma fig_sub_caption: "re_sub fig_caption [] caption_text = Inr cleaned_once"
  by (simp add: re_sub_def bad_reference_def caption_text_def cleaned_once_def ascii_def
      sub_scan.simps fig_caption_def expand_def skip_optional_def caption_rest_def
      is_space_def is_decimal_def in_ranges_def)

lemma math_clean_caption: "math_clean caption_text = Inr cleaned_once"
proof -
  have "fold pad_operator [61, 43, 45, 0xD7, 0xF7] cleaned_once = cleaned_once"
    by (simp add: pad_operator_def cleaned_once_def ascii_def)
  moreover have "re_sub blanks [Lit [32]] cleaned_once = Inr cleaned_once"
    by (simp add: re_sub_def bad_reference_def cleaned_once_def ascii_def sub_scan.simps
        blanks_def)
  ultimately show ?thesis
    by (simp add: math_clean_def basic_caption fig_sub_caption)
qed

lemma math_clean_once: "math_clean cleaned_once = Inr cleaned_twice"
proof -
  have "re_sub fig_caption [] cleaned_twice = Inr cleaned_twice"
    by (simp add: re_sub_def bad_reference_def cleaned_twice_def ascii_def sub_scan.simps
        fig_caption_def)
  moreover have "fold pad_operator [61, 43, 45, 0xD7, 0xF7] cleaned_twice = cleaned_twice"
    by (simp add: pad_operator_def cleaned_twice_def ascii_def)
  moreover have "re_sub blanks [Lit [32]] cleaned_twice = Inr cleaned_twice"
    by (simp add: re_sub_def bad_reference_def cleaned_twice_def ascii_def sub_scan.simps
        blanks_def)
  ultimately show ?thesis
    by (simp add: math_clean_def basic_once)
qed

lemma arabic_lines_Inr: "\<exists>out. arabic_lines ls = Inr out"
proof (induction ls)
  case Nil
  show ?case by simp
next
  case (Cons l ls)
  then obtain out where "arabic_lines ls = Inr out" by blast
  then show ?case
    by (simp add: re_sub_def bad_reference_def)
qed

lemma sub_scan_Nil: "match_at p bol [] = None \<Longrightarrow> sub_scan p template bol [] = []"
  by (simp add: sub_scan.simps)

section \<open>Reciprocal rank fusion: the claims\<close>

lemma fused_score_distinct:
  assumes "distinct (map text b)" and "distinct (map text s)"
  shows "fused_score k b s t = claimed_fused_score k b s t"
  by (simp only: fused_score_def claimed_fused_score_def rank_sum_distinct [OF assms(1)]
      rank_sum_distinct [OF assms(2)])

lemma hybrid_score_update: "d = d0\<lparr>hybrid_score := v\<rparr> \<Longrightarrow> hybrid_score d = v"
  by simp

lemma both_eval: "reciprocal_rank_fusion both_lexical both_semantic 60 = Inr both_fused"
  by (simp add: reciprocal_rank_fusion_def both_lexical_def both_semantic_def both_fused_def
      chunk_of_def ascii_def sorted_reverse_def)


text \<open>
  Claim C1, as amended. With the default constant \<open>K = 60\<close> and the weights \<open>0.4\<close> (lexical)
  and \<open>0.6\<close> (semantic), the fusion returns, for every pair of candidate lists, exactly the
  texts that appear in at least one list, and the fused score of a text is
  \<open>w_lex\<close> times the sum of \<open>1 / (K + r)\<close> over the positions \<open>r\<close> of the text in the
  lexical list, plus \<open>w_sem\<close> times the same sum over the semantic list (an absent text
  contributes \<open>0\<close>). When no text occurs twice within a list, this is the formula
  \<open>w_lex / (K + rank_lex) + w_sem / (K + rank_sem)\<close> of the specification.
\<close>

theorem rrf_score_formula:
  "\<exists>out. reciprocal_rank_fusion b s 60 = Inr out
     \<and> text ` set out = text ` set (b @ s)
     \<and> (\<forall>d\<in>set out. hybrid_score d = Some (fused_score 60 b s (text d)))
     \<and> (distinct (map text b) \<and> distinct (map text s) \<longrightarrow>
          (\<forall>d\<in>set out. hybrid_score d = Some (claimed_fused_score 60 b s (text d))))"
proof -
  have r: "reciprocal_rank_fusion b s 60 = Inr (fused_results 60 b s)"
    by (simp add: reciprocal_rank_fusion_eq not_zero_rank)
  have h: "hybrid_score d = Some (fused_score 60 b s (text d))"
    if "d \<in> set (fused_results 60 b s)" for d
  proof -
    from fused_results_mem [OF that] obtain d0 where
      "d = d0\<lparr>hybrid_score := Some (fused_score 60 b s (text d))\<rparr>" by blast
    then show ?thesis by (rule hybrid_score_update)
  qed
  have c: "hybrid_score d = Some (claimed_fused_score 60 b s (text d))"
    if "d \<in> set (fused_results 60 b s)" and "distinct (map text b)" and "distinct (map text s)"
    for d
    using h [OF that(1)] fused_score_distinct [OF that(2,3)] by simp
  show ?thesis
    using r h c fused_results_text_set [of 60 b s] by blast
qed

theorem rrf_score_formula_witness:
  "reciprocal_rank_fusion both_lexical both_semantic 60 = Inr both_fused
   \<and> distinct (map text both_lexical) \<and> distinct (map text both_semantic)
   \<and> list_all
        (\<lambda>d. hybrid_score d = Some (claimed_fused_score 60 both_lexical both_semantic (text d)))
        both_fused
   \<and> map (claimed_fused_score 60 both_lexical both_semantic) [ascii ''B'', ascii ''C'', ascii ''A'']
       = [2 / 5 * (1 / 62) + 3 / 5 * (1 / 61), 3 / 5 * (1 / 62), 2 / 5 * (1 / 61)]"
proof -
  have d: "distinct (map text both_lexical) \<and> distinct (map text both_semantic)"
    by (simp add: both_lexical_def both_semantic_def chunk_of_def ascii_def)
  from rrf_score_formula [of both_lexical both_semantic] both_eval d
  have "list_all
          (\<lambda>d. hybrid_score d = Some (claimed_fused_score 60 both_lexical both_semantic (text d)))
          both_fused"
    by (auto simp: list_all_iff)
  moreover have
    "map (claimed_fused_score 60 both_lexical both_semantic) [ascii ''B'', ascii ''C'', ascii ''A'']
       = [2 / 5 * (1 / 62) + 3 / 5 * (1 / 61), 3 / 5 * (1 / 62), 2 / 5 * (1 / 61)]"
    by (simp add: claimed_fused_score_def rrf_term_def both_lexical_def both_semantic_def
        chunk_of_def ascii_def)
  ultimately show ?thesis using both_eval d by blast
qed

text \<open>
  Claim C1 as stated fails when a text stands twice in one list: the two lexical entries
  with the text \<open>Unit 1\<close>, at the ranks 1 and 2, give the fused score
  \<open>0.4/61 + 0.4/62 = 123/9455\<close>, where the formula of the claim gives \<open>0.4/61 = 2/305\<close>.
\<close>

theorem rrf_score_duplicate_counterexample:
  "reciprocal_rank_fusion twice_lexical [] 60
     = Inr [(chunk_of (ascii ''Unit 1'') 7)\<lparr>hybrid_score := Some (123 / 9455)\<rparr>]
   \<and> claimed_fused_score 60 twice_lexical [] (ascii ''Unit 1'') = 2 / 305
   \<and> (123 / 9455 :: rat) \<noteq> 2 / 305"
  by (simp add: reciprocal_rank_fusion_def twice_lexical_def chunk_of_def ascii_def
      sorted_reverse_def claimed_fused_score_def rrf_term_def)



lemma kept_record_semantic:
  "t \<notin> text ` set b \<Longrightarrow> kept_record b s t = Some d \<Longrightarrow> d \<in> set s"
proof -
  assume t: "t \<notin> text ` set b" and k: "kept_record b s t = Some d"
  from t have "find (\<lambda>d. text d = t) (rev b) = None"
    by (simp add: find_text_None)
  with k have "find (\<lambda>d. text d = t) s = Some d"
    by (simp add: kept_record_def)
  from find_text_Some [OF this] show "d \<in> set s" by simp
qed

text \<open>
  Claim C10. For every pair of candidate lists and every constant \<open>k \<ge> 0\<close> (the default
  is 60), the fusion returns a list in which no text occurs twice, every entry carries a
  fused score greater than zero, and an entry whose text occurs in the lexical list (so
  also one present in both lists) is a record of the lexical list with the fused score
  added; an entry whose text occurs only in the semantic list is a record of that list.
\<close>

theorem rrf_dedup_positive_lexical_record:
  assumes "0 \<le> k"
  shows "\<exists>out. reciprocal_rank_fusion b s k = Inr out
     \<and> distinct (map text out)
     \<and> (\<forall>d\<in>set out. \<exists>v. hybrid_score d = Some v \<and> 0 < v)
     \<and> (\<forall>d\<in>set out. text d \<in> text ` set b \<longrightarrow>
           (\<exists>d0\<in>set b. d = d0\<lparr>hybrid_score := hybrid_score d\<rparr>))
     \<and> (\<forall>d\<in>set out. text d \<notin> text ` set b \<longrightarrow>
           (\<exists>d0\<in>set s. d = d0\<lparr>hybrid_score := hybrid_score d\<rparr>))"
proof -
  let ?out = "fused_results k b s"
  have r: "reciprocal_rank_fusion b s k = Inr ?out"
    using assms by (simp add: reciprocal_rank_fusion_eq not_zero_rank)
  have m: "\<exists>d0. kept_record b s (text d) = Some d0 \<and> text d \<in> text ` set (b @ s)
             \<and> hybrid_score d = Some (fused_score k b s (text d))
             \<and> d = d0\<lparr>hybrid_score := hybrid_score d\<rparr>"
    if "d \<in> set ?out" for d
  proof -
    from fused_results_mem [OF that] obtain d0 where k: "kept_record b s (text d) = Some d0"
      and d: "d = d0\<lparr>hybrid_score := Some (fused_score k b s (text d))\<rparr>" by blast
    from d have h: "hybrid_score d = Some (fused_score k b s (text d))"
      by (rule hybrid_score_update)
    from that have "text d \<in> text ` set ?out" by simp
    then have "text d \<in> text ` set (b @ s)" by (simp only: fused_results_text_set)
    with k d h show ?thesis by simp
  qed
  have p: "\<exists>v. hybrid_score d = Some v \<and> 0 < v" if "d \<in> set ?out" for d
    using m [OF that] fused_score_pos [OF assms, of "text d" b s] by auto
  have l: "\<exists>d0\<in>set b. d = d0\<lparr>hybrid_score := hybrid_score d\<rparr>"
    if "d \<in> set ?out" and "text d \<in> text ` set b" for d
    using m [OF that(1)] kept_record_lexical [OF that(2), of s] by auto
  have n: "\<exists>d0\<in>set s. d = d0\<lparr>hybrid_score := hybrid_score d\<rparr>"
    if "d \<in> set ?out" and "text d \<notin> text ` set b" for d
    using m [OF that(1)] kept_record_semantic [OF that(2), of s] by auto
  from r fused_results_distinct [of k b s] p l n show ?thesis by blast
qed

theorem rrf_dedup_positive_lexical_record_witness:
  "(0::int) \<le> 60
   \<and> reciprocal_rank_fusion both_lexical both_semantic 60 = Inr both_fused
   \<and> distinct (map text both_fused)
   \<and> list_all (\<lambda>d. \<exists>v. hybrid_score d = Some v \<and> 0 < v) both_fused
   \<and> text (both_fused ! 0) \<in> text ` set both_lexical
   \<and> text (both_fused ! 0) \<in> text ` set both_semantic
   \<and> both_fused ! 0 = (both_lexical ! 1)\<lparr>hybrid_score := hybrid_score (both_fused ! 0)\<rparr>"
proof -
  from rrf_dedup_positive_lexical_record [of 60 both_lexical both_semantic] both_eval
  have "distinct (map text both_fused)
     \<and> list_all (\<lambda>d. \<exists>v. hybrid_score d = Some v \<and> 0 < v) both_fused"
    by (auto simp: list_all_iff)
  moreover have "text (both_fused ! 0) \<in> text ` set both_lexical
     \<and> text (both_fused ! 0) \<in> text ` set both_semantic
     \<and> both_fused ! 0 = (both_lexical ! 1)\<lparr>hybrid_score := hybrid_score (both_fused ! 0)\<rparr>"
    by (simp add: both_fused_def both_lexical_def both_semantic_def chunk_of_def ascii_def)
  ultimately show ?thesis using both_eval by simp
qed

section \<open>Lexical search and hybrid search: the claims\<close>






section \<open>Chunk records: the claims\<close>




text \<open>
  Claim C5. The texts of the chunk records of a document are exactly the pieces of the
  splitter whose stripped text has at least 50 characters, in order: a shorter piece is
  discarded, and every record has a text of at least 50 characters (also after stripping).
\<close>

theorem chunks_at_least_minimum_length:
  "map text (process_element_chunks text_splitter txt pdf_file subj)
     = filter (\<lambda>c. 50 \<le> length (strip c)) (split_text text_splitter txt)
   \<and> (\<forall>d\<in>set (process_element_chunks text_splitter txt pdf_file subj).
         50 \<le> length (strip (text d)) \<and> 50 \<le> length (text d))"
proof -
  let ?out = "process_element_chunks text_splitter txt pdf_file subj"
  have e: "map text ?out = filter (\<lambda>c. 50 \<le> length (strip c)) (split_text text_splitter txt)"
    by (simp only: process_element_chunks_def chunk_records_texts filter_enumerate_snd)
  have "50 \<le> length (strip (text d)) \<and> 50 \<le> length (text d)" if "d \<in> set ?out" for d
  proof -
    from that have "text d \<in> set (map text ?out)" by simp
    then have "50 \<le> length (strip (text d))" unfolding e by simp
    with length_strip_le [of "text d"] show ?thesis by simp
  qed
  with e show ?thesis by blast
qed

theorem chunks_at_least_minimum_length_witness:
  "map text (process_element_chunks header_then_paragraph chapter_text algebra_pdf (ascii ''math''))
     = [replicate 600 120]
   \<and> list_all (\<lambda>d. 50 \<le> length (text d))
        (process_element_chunks header_then_paragraph chapter_text algebra_pdf (ascii ''math''))"
proof -
  have c: "split_text header_then_paragraph chapter_text = [ascii ''Chapter 1'', replicate 600 120]"
    by (simp add: split_text_def header_then_paragraph_def)
  have s: "strip (ascii ''Chapter 1'') = ascii ''Chapter 1''"
    by (simp add: strip_def lstrip_def rstrip_def ascii_def is_space_def in_ranges_def)
  have f: "filter (\<lambda>c. 50 \<le> length (strip c)) (split_text header_then_paragraph chapter_text)
      = [replicate 600 120]"
    by (simp add: c s strip_replicate is_space_def in_ranges_def) (simp add: ascii_def)
  from chunks_at_least_minimum_length
    [of header_then_paragraph chapter_text algebra_pdf "ascii ''math''"] f
  show ?thesis by (simp add: list_all_iff)
qed

section \<open>Paragraph reconstruction and cleaning: the claims\<close>

text \<open>
  What the loop of \<open>_reconstruct_paragraphs\<close> does with a line that matches one of the four
  patterns: the pending buffer is flushed, the line is emitted between two pairs of
  newlines, and the buffer is empty afterwards. A line that begins with \<open>Chapter 3\<close>, or
  with the chapter word and the first ordinal, matches.
\<close>

lemma header_step:
  assumes "is_header (strip raw)"
  shows "reconstruct_loop (raw # rest) (reconstructed, current_para)
     = reconstruct_loop rest
         (reconstructed @ (if current_para \<noteq> [] then [join [32] current_para] else [])
            @ [[10, 10] @ strip raw @ [10, 10]], [])"
proof -
  from assms have "strip raw \<noteq> []" using is_header_Nil by auto
  with assms show ?thesis by (simp add: Let_def)
qed

lemma chapter_3_is_header: "is_header (strip (ascii ''Chapter 3'' @ rest))"
proof -
  have "strip (ascii ''Chapter 3'' @ rest) = ascii ''Chapter 3'' @ rstrip rest"
    by (rule strip_keeps_prefix) (simp_all add: ascii_def is_space_def in_ranges_def)
  moreover have "sep_english (ascii ''Chapter 3'' @ r)" for r
    by (simp add: sep_english_def ascii_def ci_char_def spaces_digits_def is_space_def
        is_decimal_def in_ranges_def)
  ultimately show ?thesis by (simp add: is_header_def separators_def)
qed

lemma first_chapter_is_header: "is_header (strip (first_chapter @ rest))"
proof -
  have "strip (first_chapter @ rest) = first_chapter @ rstrip rest"
    by (rule strip_keeps_prefix) (simp_all add: first_chapter_def is_space_def in_ranges_def)
  moreover have "sep_arabic (first_chapter @ r)" for r
    by (simp add: sep_arabic_def first_chapter_def arabic_heads_def arabic_ordinals_def
        spaces_ordinal_def is_space_def in_ranges_def)
  ultimately show ?thesis by (simp add: is_header_def separators_def)
qed

text \<open>
  Claim C7 fails on the code for the tenth ordinal. The third pattern lists nine ordinals
  with the article and then the three letters U+0639 U+0634 U+0631, not the word for
  tenth (U+0627 U+0644 U+0639 U+0627 U+0634 U+0631). The heading of chapter ten is
  therefore no header: in the middle of a paragraph it is joined into the running text,
  where the heading of chapter one, in the same place, is emitted on its own between
  blank lines.
\<close>

theorem tenth_ordinal_heading_is_merged:
  "\<not> is_header tenth_chapter
   \<and> reconstruct_paragraphs (around tenth_chapter)
       = ascii ''intro'' @ [32] @ tenth_chapter @ [32] @ ascii ''more''
   \<and> is_header first_chapter
   \<and> reconstruct_paragraphs (around first_chapter)
       = ascii ''intro'' @ [10, 10] @ ([10, 10] @ first_chapter @ [10, 10]) @ [10, 10] @ ascii ''more''"
proof -
  have t: "10 \<notin> set tenth_chapter" and f: "10 \<notin> set first_chapter"
    by (simp_all add: tenth_chapter_def first_chapter_def)
  have e: "\<not> ends_sentence tenth_chapter"
    by (simp add: ends_sentence_def tenth_chapter_def)
  have n: "ascii ''intro'' \<noteq> []" "ascii ''more'' \<noteq> []" "tenth_chapter \<noteq> []" "first_chapter \<noteq> []"
    by (simp_all add: ascii_def tenth_chapter_def first_chapter_def)
  have "reconstruct_paragraphs (around tenth_chapter)
       = ascii ''intro'' @ [32] @ tenth_chapter @ [32] @ ascii ''more''"
    by (simp add: reconstruct_paragraphs_def reconstructed_list_def split_around [OF t]
        strip_intro strip_tenth tenth_not_header intro_more_plain e n Let_def)
  moreover have "reconstruct_paragraphs (around first_chapter)
       = ascii ''intro'' @ [10, 10] @ ([10, 10] @ first_chapter @ [10, 10]) @ [10, 10] @ ascii ''more''"
    by (simp add: reconstruct_paragraphs_def reconstructed_list_def split_around [OF f]
        strip_intro strip_first first_is_header intro_more_plain n Let_def)
  ultimately show ?thesis using tenth_not_header first_is_header by simp
qed

text \<open>
  Claim C8. For each of the four cleaners and every input string, \<open>clean\<close> returns a
  string: the only operation of the cleaners that can raise is the parsing of a
  replacement template by \<open>re.sub\<close>, and every template refers to a group that its pattern
  has. On the empty string each cleaner returns the empty string.
\<close>

theorem clean_returns_string:
  "(\<exists>out. clean c txt = Inr out) \<and> clean c [] = Inr []"
proof -
  have total: "\<exists>out. clean c t = Inr out" for t
  proof (cases c)
    case ArabicCleaner
    obtain ls where "arabic_lines (split_newline (basic_clean t)) = Inr ls"
      using arabic_lines_Inr by blast
    with ArabicCleaner show ?thesis
      by (simp add: arabic_clean_def re_sub_def bad_reference_def space_before_mark_def)
  next
    case MathPhysicsCleaner
    then show ?thesis by (simp add: math_clean_def re_sub_def bad_reference_def)
  next
    case ScienceCleaner
    then show ?thesis by (simp add: science_clean_def re_sub_def bad_reference_def)
  next
    case EnglishCleaner
    then show ?thesis
      by (simp add: english_clean_def re_sub_def bad_reference_def option_marker_def)
  qed
  have empty: "clean c [] = Inr []"
  proof (cases c)
    case ArabicCleaner
    then show ?thesis
      by (simp add: arabic_clean_def basic_clean_Nil re_sub_def bad_reference_def sub_scan_Nil
          isolated_letter_def space_before_mark_def)
  next
    case MathPhysicsCleaner
    then show ?thesis
      by (simp add: math_clean_def basic_clean_Nil re_sub_def bad_reference_def sub_scan_Nil
          fig_caption_def blanks_def pad_operator_def ascii_def)
  next
    case ScienceCleaner
    then show ?thesis
      by (simp add: science_clean_def basic_clean_Nil re_sub_def bad_reference_def sub_scan_Nil
          figure_caption_def lone_capital_def bullet_def ascii_def)
  next
    case EnglishCleaner
    then show ?thesis
      by (simp add: english_clean_def basic_clean_Nil re_sub_def bad_reference_def sub_scan_Nil
          option_marker_def)
  qed
  from total empty show ?thesis by blast
qed

text \<open>
  Claim C9, as amended. The pass that all cleaners share, \<open>basic_clean\<close> (blank lines,
  page numbers, short noise lines and separator lines removed), changes nothing when it is
  applied to its own output.
\<close>

theorem basic_clean_idempotent: "basic_clean (basic_clean txt) = basic_clean txt"
proof -
  let ?ls = "filter (\<lambda>line. \<not> dropped line) (split_newline txt)"
  show ?thesis
  proof (cases "?ls = []")
    case True
    then show ?thesis by (simp add: basic_clean_def dropped_Nil)
  next
    case False
    have "\<forall>l\<in>set ?ls. 10 \<notin> set l"
      using split_newline_lines [of _ "txt"] by auto
    with False have "split_newline (join [10] ?ls) = ?ls"
      by (rule split_newline_join)
    then show ?thesis by (simp add: basic_clean_def)
  qed
qed

text \<open>
  Claim C9 as stated fails for the cleaners themselves. The cleaner for mathematics and
  physics replaces a caption line by an empty line; applied again, its first pass removes
  that blank line, so the second application changes the text.
\<close>

theorem math_clean_not_idempotent_counterexample:
  "clean MathPhysicsCleaner caption_text = Inr cleaned_once
   \<and> clean MathPhysicsCleaner cleaned_once = Inr cleaned_twice
   \<and> cleaned_once \<noteq> cleaned_twice"
  by (simp add: math_clean_caption math_clean_once) (simp add: cleaned_once_def cleaned_twice_def)


end
